theory Spec2Isabelle
  imports Main "HOL-Library.Word" "HOL-Library.Sublist"
begin

section \<open>The App component of the company finder (client/src/App.tsx)\<close>

text \<open>
  The component keeps its data in React state cells and changes them from event handlers,
  effects and the continuations of network calls. The embedding is by explicit state
  passing: one record holds every state cell, each handler is a function from the state
  to the new state, and the result of a network call is an argument (an error or the
  parsed body), so that the \<^verbatim>\<open>catch\<close> branch of every \<^verbatim>\<open>try\<close> is a branch of the model.
\<close>

subsection \<open>Strings\<close>

text \<open>
  A JavaScript string is a sequence of UTF-16 code units. \<^verbatim>\<open>String.prototype.trim\<close>
  removes the code units of the ECMAScript classes WhiteSpace and LineTerminator from
  both ends; all of them lie in the basic plane, so the test is on single code units.
\<close>

type_synonym js_string = "16 word list"

definition is_white_space :: "16 word \<Rightarrow> bool" where
  "is_white_space c \<longleftrightarrow>
     c = 0x0009 \<or> c = 0x000A \<or> c = 0x000B \<or> c = 0x000C \<or> c = 0x000D \<or> c = 0x0020 \<or>
     c = 0x00A0 \<or> c = 0x1680 \<or> (0x2000 \<le> c \<and> c \<le> 0x200A) \<or> c = 0x2028 \<or>
     c = 0x2029 \<or> c = 0x202F \<or> c = 0x205F \<or> c = 0x3000 \<or> c = 0xFEFF"

definition trim :: "js_string \<Rightarrow> js_string" where
  "trim s = rev (dropWhile is_white_space (rev (dropWhile is_white_space s)))"

text \<open>
  The constructor of \<^verbatim>\<open>URLSearchParams\<close> takes its values as \<^verbatim>\<open>USVString\<close>: a leading
  surrogate followed by a trailing one stays, every other surrogate code unit becomes
  U+FFFD, and nothing else changes.
\<close>

definition is_leading :: "16 word \<Rightarrow> bool" where
  "is_leading c \<longleftrightarrow> 0xD800 \<le> c \<and> c \<le> 0xDBFF"

definition is_trailing :: "16 word \<Rightarrow> bool" where
  "is_trailing c \<longleftrightarrow> 0xDC00 \<le> c \<and> c \<le> 0xDFFF"

definition is_surrogate :: "16 word \<Rightarrow> bool" where
  "is_surrogate c \<longleftrightarrow> is_leading c \<or> is_trailing c"

fun to_usv :: "js_string \<Rightarrow> js_string" where
  "to_usv [] = []"
| "to_usv [c] = (if is_surrogate c then [0xFFFD] else [c])"
| "to_usv (c # d # cs) =
     (if is_leading c \<and> is_trailing d then c # d # to_usv cs
      else if is_surrogate c then 0xFFFD # to_usv (d # cs)
      else c # to_usv (d # cs))"

subsection \<open>Data\<close>

text \<open>
  \<^verbatim>\<open>Company\<close> is declared outside this file and is used as an opaque value, so it is
  the type parameter \<open>'c\<close>. The body of a search response is
  \<^verbatim>\<open>{ companiesData, nextCursor, hasMore }\<close>. A failed call is either a rejected request
  or a body that does not parse.
\<close>

datatype page = Home | Bookmarks

datatype fetch_error = NetworkError | JsonError

record 'c search_response =
  companiesData :: "'c list"
  nextCursor :: "js_string option"
  resp_hasMore :: bool

text \<open>
  The values a \<^verbatim>\<open>lastCompanyRef\<close> callback closes over (its dependency array without the
  stable \<^verbatim>\<open>fetchCompanies\<close>), and the intersection observer held in \<^verbatim>\<open>observer.current\<close>:
  the closure its callback was created in and whether it observes a node.
\<close>

record ref_deps =
  d_loading :: bool
  d_hasMore :: bool
  d_cursor :: "js_string option"
  d_search :: js_string
  d_location :: js_string

record observer_obj =
  obs_deps :: ref_deps
  obs_target :: bool

text \<open>
  A search request that has been sent and not yet answered: the \<^verbatim>\<open>resetList\<close> argument its
  continuation will use, and the entries of its \<^verbatim>\<open>URLSearchParams\<close> in order. The keys
  are the ASCII literals of the source. The percent-encoding of the entries into the URL
  is the platform's and is not modelled.
\<close>

record request =
  req_reset :: bool
  req_params :: "(string \<times> js_string) list"

text \<open>
  The state cells of \<^verbatim>\<open>App\<close>, the value delivered by the debounce hook, the observer
  reference and the requests in flight. The user session belongs to the auth hook and is
  passed to the handlers that read it.
\<close>

record 'c app_state =
  currentPage :: page
  companies :: "'c list"
  bookmarkedIds :: "js_string set"
  locations :: "js_string list"
  loading :: bool
  cursor :: "js_string option"
  hasMore :: bool
  filters_search :: js_string
  filters_location :: js_string
  showLoginDialog :: bool
  debouncedSearch :: js_string
  observer :: "observer_obj option"
  inflight :: "request list"

text \<open>
  Modelled from the spec: the debounce hook (\<^verbatim>\<open>hooks/useDebouce\<close>) is not part of the
  sources; it "produces a derived value that updates only after the input has been stable
  for the delay period". Its first output is taken to be its first input, the empty
  search; every later output is an event of the transition system below.
\<close>

definition initial_state :: "'c app_state" where
  "initial_state =
     \<lparr>currentPage = Home, companies = [], bookmarkedIds = {}, locations = [],
      loading = False, cursor = None, hasMore = True, filters_search = [],
      filters_location = [], showLoginDialog = False, debouncedSearch = [],
      observer = None, inflight = []\<rparr>"

subsection \<open>Bookmarks\<close>

text \<open>
  \<^verbatim>\<open>handleBookmarkToggle(id, state)\<close>: without a user it opens the login dialog and
  returns; with a user it copies the set and adds or deletes the id.
\<close>

definition handleBookmarkToggle ::
  "'u option \<Rightarrow> js_string \<Rightarrow> bool \<Rightarrow> 'c app_state \<Rightarrow> 'c app_state" where
  "handleBookmarkToggle user ident state s =
     (case user of
        None \<Rightarrow> s\<lparr>showLoginDialog := True\<rparr>
      | Some _ \<Rightarrow>
          s\<lparr>bookmarkedIds :=
               (if state then insert ident (bookmarkedIds s)
                else bookmarkedIds s - {ident})\<rparr>)"

text \<open>
  \<^verbatim>\<open>fetchBookmarks\<close> returns at once without a user; otherwise a successful answer
  replaces the set by the ids of the body and a failure is logged and dropped.
\<close>

definition fetchBookmarks ::
  "'u option \<Rightarrow> fetch_error + js_string list \<Rightarrow> 'c app_state \<Rightarrow> 'c app_state" where
  "fetchBookmarks user outcome s =
     (case user of
        None \<Rightarrow> s
      | Some _ \<Rightarrow>
          (case outcome of
             Inl err \<Rightarrow> s
           | Inr bookmarkedCompanyIds \<Rightarrow> s\<lparr>bookmarkedIds := set bookmarkedCompanyIds\<rparr>))"

text \<open>
  \<^verbatim>\<open>fetchLocations\<close> stores the locations of the body; a failure its \<^verbatim>\<open>catch\<close> sees is
  logged and dropped. (The body of an error status is the subject of
  \<open>fetchLocations_answer\<close> below.)
\<close>

definition fetchLocations ::
  "fetch_error + js_string list \<Rightarrow> 'c app_state \<Rightarrow> 'c app_state" where
  "fetchLocations outcome s =
     (case outcome of
        Inl err \<Rightarrow> s
      | Inr locs \<Rightarrow> s\<lparr>locations := locs\<rparr>)"

subsection \<open>Searching\<close>

text \<open>
  The query of \<^verbatim>\<open>fetchCompanies\<close>: \<^verbatim>\<open>limit\<close> is always \<^verbatim>\<open>"20"\<close>; each other entry is
  spread in only when the guard before \<^verbatim>\<open>&&\<close> is truthy. A string is truthy when it is
  not empty, and \<^verbatim>\<open>null\<close> is falsy. The guards test the JavaScript strings; the
  constructor then converts the values it is given.
\<close>

definition search_params ::
  "js_string option \<Rightarrow> js_string \<Rightarrow> js_string \<Rightarrow> (string \<times> js_string) list" where
  "search_params currentCursor searchTerm locationFilter =
     [(''limit'', [0x32, 0x30])]
     @ (case currentCursor of
          None \<Rightarrow> []
        | Some c \<Rightarrow> if c = [] then [] else [(''cursor'', to_usv c)])
     @ (if trim searchTerm = [] then [] else [(''search'', to_usv (trim searchTerm))])
     @ (if trim locationFilter = [] then []
        else [(''location'', to_usv (trim locationFilter))])"

text \<open>
  \<^verbatim>\<open>fetchCompanies\<close> is asynchronous, so it is two transitions. Up to the first
  \<^verbatim>\<open>await\<close> it sets the loading flag and sends the request. When the answer is there, the
  continuation replaces or extends the list (the updater reads the list of that moment),
  stores the cursor and the flag of the body, or, in the \<^verbatim>\<open>catch\<close> branch, changes
  nothing; the \<^verbatim>\<open>finally\<close> block clears the loading flag on both paths. The outcome
  here is a failure the \<^verbatim>\<open>catch\<close> sees or a body of the contract; what the same lines do
  with the body of an error status is \<open>fetchCompanies_answer\<close> below.
\<close>

definition fetchCompanies_start ::
  "bool \<Rightarrow> js_string option \<Rightarrow> js_string \<Rightarrow> js_string \<Rightarrow> 'c app_state \<Rightarrow> 'c app_state" where
  "fetchCompanies_start resetList currentCursor searchTerm locationFilter s =
     s\<lparr>loading := True,
       inflight := inflight s @
         [\<lparr>req_reset = resetList,
           req_params = search_params currentCursor searchTerm locationFilter\<rparr>]\<rparr>"

definition fetchCompanies_finish ::
  "bool \<Rightarrow> fetch_error + 'c search_response \<Rightarrow> 'c app_state \<Rightarrow> 'c app_state" where
  "fetchCompanies_finish resetList outcome s =
     (case outcome of
        Inl err \<Rightarrow> s
      | Inr data \<Rightarrow>
          s\<lparr>companies :=
               (if resetList then companiesData data
                else companies s @ companiesData data),
            cursor := nextCursor data,
            hasMore := resp_hasMore data\<rparr>)
     \<lparr>loading := False\<rparr>"

text \<open>
  The answer to the request at position \<open>i\<close> of the requests in flight arrives: its
  continuation runs and the request is gone. There is no answer to a request that was
  never sent.
\<close>

definition settle ::
  "nat \<Rightarrow> fetch_error + 'c search_response \<Rightarrow> 'c app_state \<Rightarrow> 'c app_state" where
  "settle i outcome s =
     (if i < length (inflight s)
      then (fetchCompanies_finish (req_reset (inflight s ! i)) outcome s)
             \<lparr>inflight := take i (inflight s) @ drop (Suc i) (inflight s)\<rparr>
      else s)"

text \<open>A call of \<^verbatim>\<open>fetchCompanies\<close> that is answered before anything else happens.\<close>

definition fetchCompanies ::
  "bool \<Rightarrow> js_string option \<Rightarrow> js_string \<Rightarrow> js_string \<Rightarrow>
   fetch_error + 'c search_response \<Rightarrow> 'c app_state \<Rightarrow> 'c app_state" where
  "fetchCompanies resetList currentCursor searchTerm locationFilter outcome s =
     settle (length (inflight s)) outcome
       (fetchCompanies_start resetList currentCursor searchTerm locationFilter s)"

subsection \<open>Answers with an error status\<close>





subsection \<open>Infinite scroll\<close>

text \<open>
  \<^verbatim>\<open>lastCompanyRef\<close> is a callback ref created with the values \<open>d\<close> of one render.
  Called with a node or with \<^verbatim>\<open>null\<close>, it returns at once while that render was loading;
  otherwise it disconnects the observer in place and stores a new one, whose callback
  closes over \<open>d\<close>, and lets it observe the node if there is one.
\<close>

definition deps_of :: "'c app_state \<Rightarrow> ref_deps" where
  "deps_of s =
     \<lparr>d_loading = loading s, d_hasMore = hasMore s, d_cursor = cursor s,
      d_search = debouncedSearch s, d_location = filters_location s\<rparr>"

definition lastCompanyRef ::
  "ref_deps \<Rightarrow> bool \<Rightarrow> observer_obj option \<Rightarrow> observer_obj option" where
  "lastCompanyRef d node current =
     (if d_loading d then current
      else Some \<lparr>obs_deps = d, obs_target = node\<rparr>)"

text \<open>
  The callback given to \<^verbatim>\<open>new IntersectionObserver\<close>: when the first entry intersects and
  the closure's \<^verbatim>\<open>hasMore\<close> holds, it asks for a further page with the closure's cursor
  and filters.
\<close>

definition observer_callback :: "ref_deps \<Rightarrow> bool \<Rightarrow> 'c app_state \<Rightarrow> 'c app_state" where
  "observer_callback d isIntersecting s =
     (if isIntersecting \<and> d_hasMore d
      then fetchCompanies_start False (d_cursor d) (d_search d) (d_location d) s
      else s)"

text \<open>
  What React does with the ref when a state change has been rendered: the card that was
  last (if the list had one) has its callback, the one of the previous render, called with
  \<^verbatim>\<open>null\<close>; then the card that is last now (if there is one) has the callback of the new
  render called with its node. React skips both calls when neither the callback nor the
  element changed; the observer in place then already is the one these calls would
  install (lemma \<open>rerender_skip\<close> below).
\<close>

definition rerender :: "'c app_state \<Rightarrow> 'c app_state \<Rightarrow> 'c app_state" where
  "rerender old new =
     (let detached =
            (if companies old \<noteq> [] then lastCompanyRef (deps_of old) False (observer new)
             else observer new);
          attached =
            (if companies new \<noteq> [] then lastCompanyRef (deps_of new) True detached
             else detached)
      in new\<lparr>observer := attached\<rparr>)"

subsection \<open>Filters and effects\<close>

definition handleSearchChange :: "js_string \<Rightarrow> 'c app_state \<Rightarrow> 'c app_state" where
  "handleSearchChange search s = s\<lparr>filters_search := search\<rparr>"

definition handleLocationChange :: "js_string \<Rightarrow> 'c app_state \<Rightarrow> 'c app_state" where
  "handleLocationChange location s = s\<lparr>filters_location := location\<rparr>"

text \<open>
  The effect on \<^verbatim>\<open>[debouncedSearch, filters.location, fetchCompanies]\<close>: it clears the cursor,
  sets \<^verbatim>\<open>hasMore\<close> and starts a reset fetch with the filters of its render. It runs after
  the first render and after every render in which one of the two values differs.
\<close>

definition filter_effect :: "'c app_state \<Rightarrow> 'c app_state" where
  "filter_effect s =
     fetchCompanies_start True None (debouncedSearch s) (filters_location s)
       (s\<lparr>cursor := None, hasMore := True\<rparr>)"

text \<open>
  The effect commented \<^verbatim>\<open>Initial load\<close> calls \<^verbatim>\<open>fetchCompanies(true)\<close>, the other
  arguments taking their defaults. (Its calls of \<^verbatim>\<open>fetchLocations\<close> and \<^verbatim>\<open>checkAuth\<close> do not
  touch the cells of the search and are covered by \<open>fetchLocations\<close> above.)
\<close>

definition initial_load_effect :: "'c app_state \<Rightarrow> 'c app_state" where
  "initial_load_effect s = fetchCompanies_start True None [] [] s"

text \<open>Mounting: the first render shows no card; then both effects run, in source order.\<close>

definition mount :: "'c app_state" where
  "mount = rerender initial_state (initial_load_effect (filter_effect initial_state))"

subsection \<open>The component as a transition system\<close>

text \<open>
  The events of the search: the two change handlers of the search bar, the debounce hook
  delivering a value \<open>v\<close>, the observer reporting an entry for the last card, and the
  answer to the request at a position of the requests in flight. Each transition is the
  state change of the handler, its render, the effect the render schedules and the render
  after the effect. Navigation to the bookmarks page and the bookmark handlers are not
  among the events; they leave the cells of the search alone. An answer is a rejection,
  a body that does not parse, or a body of the contract; an answer with an error status
  ends the component (\<open>fetchCompanies_answer\<close>) and is not an event.
\<close>

datatype 'c event =
    SearchInput js_string
  | DebouncedSearch js_string
  | LocationInput js_string
  | Intersect bool
  | Respond nat "fetch_error + 'c search_response"

fun step :: "'c app_state \<Rightarrow> 'c event \<Rightarrow> 'c app_state" where
  "step s (SearchInput v) = rerender s (handleSearchChange v s)"
| "step s (DebouncedSearch v) =
     (let s1 = rerender s (s\<lparr>debouncedSearch := v\<rparr>)
      in if v = debouncedSearch s then s1 else rerender s1 (filter_effect s1))"
| "step s (LocationInput v) =
     (let s1 = rerender s (handleLocationChange v s)
      in if v = filters_location s then s1 else rerender s1 (filter_effect s1))"
| "step s (Intersect isIntersecting) =
     (case observer s of
        None \<Rightarrow> s
      | Some ob \<Rightarrow>
          if obs_target ob
          then rerender s (observer_callback (obs_deps ob) isIntersecting s)
          else s)"
| "step s (Respond i outcome) = rerender s (settle i outcome s)"

definition run :: "'c event list \<Rightarrow> 'c app_state" where
  "run evs = foldl step mount evs"

fun filter_event :: "'c event \<Rightarrow> bool" where
  "filter_event (DebouncedSearch v) = True"
| "filter_event (LocationInput v) = True"
| "filter_event _ = False"

subsection \<open>Auxiliary notions for the statements\<close>

text \<open>
  What holds of the observer after every transition: while the state is loading, or
  shows no card, no observer observes a node; otherwise the observer in place observes the
  last card and its callback closes over the current values.
\<close>

definition observer_ok :: "'c app_state \<Rightarrow> bool" where
  "observer_ok s =
     (if loading s \<or> companies s = []
      then (case observer s of None \<Rightarrow> True | Some ob \<Rightarrow> \<not> obs_target ob)
      else observer s = Some \<lparr>obs_deps = deps_of s, obs_target = True\<rparr>)"

text \<open>The companies an answer delivers: those of the body, none when the call failed.\<close>

definition page_of :: "fetch_error + 'c search_response \<Rightarrow> 'c list" where
  "page_of outcome = (case outcome of Inl err \<Rightarrow> [] | Inr data \<Rightarrow> companiesData data)"

text \<open>An event that gives the debounced search or the location a value it did not have.\<close>

fun filter_change :: "'c app_state \<Rightarrow> 'c event \<Rightarrow> bool" where
  "filter_change s (DebouncedSearch v) = (v \<noteq> debouncedSearch s)"
| "filter_change s (LocationInput v) = (v \<noteq> filters_location s)"
| "filter_change s _ = False"

text \<open>
  Two bodies of a server that holds three companies and serves two per page: the first
  page with the cursor \<^verbatim>\<open>"c"\<close>, and the page after that cursor, which is the last.
\<close>

definition first_page :: "nat search_response" where
  "first_page = \<lparr>companiesData = [1, 2], nextCursor = Some [0x63], resp_hasMore = True\<rparr>"

definition final_page :: "nat search_response" where
  "final_page = \<lparr>companiesData = [3], nextCursor = None, resp_hasMore = False\<rparr>"

text \<open>
  A server that answers every query with a body, the same body for the same query. The
  example server serves \<open>first_page\<close> to a query without cursor and \<open>final_page\<close> to a
  query with one.
\<close>

type_synonym 'c server = "(string \<times> js_string) list \<Rightarrow> 'c search_response"

definition example_server :: "nat server" where
  "example_server query =
     (case map_of query ''cursor'' of None \<Rightarrow> first_page | Some c \<Rightarrow> final_page)"

text \<open>The server answers the request at position \<open>i\<close> of the requests in flight.\<close>

definition respond :: "'c server \<Rightarrow> nat \<Rightarrow> 'c app_state \<Rightarrow> 'c app_state" where
  "respond srv i s =
     (if i < length (inflight s)
      then step s (Respond i (Inr (srv (req_params (inflight s ! i)))))
      else s)"

text \<open>
  One scroll that does not overlap with another fetch: the last card intersects, and the
  request this sends (if it sends one) is answered before anything else happens. Then
  \<open>n\<close> of them in a row.
\<close>

definition scroll_once :: "'c server \<Rightarrow> 'c app_state \<Rightarrow> 'c app_state" where
  "scroll_once srv s = respond srv (length (inflight s)) (step s (Intersect True))"

fun scrolls :: "'c server \<Rightarrow> nat \<Rightarrow> 'c app_state \<Rightarrow> 'c app_state" where
  "scrolls srv 0 s = s"
| "scrolls srv (Suc n) s = scrolls srv n (scroll_once srv s)"

text \<open>
  The companies the server serves for fixed filters on at most \<open>n\<close> successive pages,
  from the page of the cursor \<open>c\<close> on, following the cursor of each body until a body
  says that there is no more.
\<close>

fun served :: "'c server \<Rightarrow> js_string \<Rightarrow> js_string \<Rightarrow> js_string option \<Rightarrow> nat \<Rightarrow> 'c list" where
  "served srv se lo c 0 = []"
| "served srv se lo c (Suc n) =
     (let body = srv (search_params c se lo)
      in companiesData body @
         (if resp_hasMore body then served srv se lo (nextCursor body) n else []))"

section \<open>Properties\<close>

subsection \<open>Rendering keeps the observer current\<close>

lemma rerender_fields [simp]:
  "companies (rerender old new) = companies new"
  "loading (rerender old new) = loading new"
  "cursor (rerender old new) = cursor new"
  "hasMore (rerender old new) = hasMore new"
  "inflight (rerender old new) = inflight new"
  "debouncedSearch (rerender old new) = debouncedSearch new"
  "filters_location (rerender old new) = filters_location new"
  "filters_search (rerender old new) = filters_search new"
  "bookmarkedIds (rerender old new) = bookmarkedIds new"
  "locations (rerender old new) = locations new"
  "showLoginDialog (rerender old new) = showLoginDialog new"
  "currentPage (rerender old new) = currentPage new"
  by (simp_all add: rerender_def Let_def)

lemma deps_of_rerender [simp]: "deps_of (rerender old new) = deps_of new"
  by (simp add: deps_of_def)

lemma rerender_ok:
  assumes "observer_ok old" and "observer new = observer old"
  shows "observer_ok (rerender old new)"
  using assms
  by (auto simp: observer_ok_def rerender_def Let_def lastCompanyRef_def deps_of_def
      split: option.splits if_splits)

lemma rerender_same:
  assumes "observer_ok s"
  shows "rerender s s = s"
  using assms
  by (auto simp: observer_ok_def rerender_def Let_def lastCompanyRef_def deps_of_def
      split: option.splits if_splits)

lemma observer_start [simp]:
  "observer (fetchCompanies_start r c se lo s) = observer s"
  by (simp add: fetchCompanies_start_def)

lemma observer_finish [simp]:
  "observer (fetchCompanies_finish r outcome s) = observer s"
  by (simp add: fetchCompanies_finish_def split: sum.splits)

lemma observer_settle [simp]: "observer (settle i outcome s) = observer s"
  by (simp add: settle_def)

lemma observer_filter_effect [simp]: "observer (filter_effect s) = observer s"
  by (simp add: filter_effect_def)

lemma observer_callback_observer [simp]:
  "observer (observer_callback d b s) = observer s"
  by (simp add: observer_callback_def)

lemma step_ok:
  assumes "observer_ok s"
  shows "observer_ok (step s ev)"
proof (cases ev)
  case (SearchInput v)
  then show ?thesis using assms by (simp add: rerender_ok handleSearchChange_def)
next
  case (DebouncedSearch v)
  let ?s1 = "rerender s (s\<lparr>debouncedSearch := v\<rparr>)"
  have ok1: "observer_ok ?s1"
    using assms by (simp add: rerender_ok)
  then have ok2: "observer_ok (rerender ?s1 (filter_effect ?s1))"
    by (simp add: rerender_ok)
  show ?thesis
  proof (cases "v = debouncedSearch s")
    case True
    then have "step s ev = ?s1"
      unfolding DebouncedSearch step.simps Let_def by (rule if_P)
    then show ?thesis using ok1 by (simp only:)
  next
    case False
    then have "step s ev = rerender ?s1 (filter_effect ?s1)"
      unfolding DebouncedSearch step.simps Let_def by (rule if_not_P)
    then show ?thesis using ok2 by (simp only:)
  qed
next
  case (LocationInput v)
  let ?s1 = "rerender s (handleLocationChange v s)"
  have ok1: "observer_ok ?s1"
    using assms by (simp add: rerender_ok handleLocationChange_def)
  then have ok2: "observer_ok (rerender ?s1 (filter_effect ?s1))"
    by (simp add: rerender_ok)
  show ?thesis
  proof (cases "v = filters_location s")
    case True
    then have "step s ev = ?s1"
      unfolding LocationInput step.simps Let_def by (rule if_P)
    then show ?thesis using ok1 by (simp only:)
  next
    case False
    then have "step s ev = rerender ?s1 (filter_effect ?s1)"
      unfolding LocationInput step.simps Let_def by (rule if_not_P)
    then show ?thesis using ok2 by (simp only:)
  qed
next
  case (Intersect b)
  then show ?thesis using assms by (simp add: rerender_ok split: option.splits)
next
  case (Respond i outcome)
  then show ?thesis using assms by (simp add: rerender_ok)
qed

lemma mount_ok: "observer_ok mount"
  by (simp add: mount_def observer_ok_def initial_load_effect_def filter_effect_def
      fetchCompanies_start_def initial_state_def rerender_def Let_def)

lemma foldl_step_ok: "observer_ok s \<Longrightarrow> observer_ok (foldl step s evs)"
  by (induction evs arbitrary: s) (simp_all add: step_ok)

lemma run_ok: "observer_ok (run evs)"
  by (simp add: run_def foldl_step_ok mount_ok)

lemma run_append: "run (evs @ evs') = foldl step (run evs) evs'"
  by (simp add: run_def)

lemma run_snoc: "run (evs @ [ev]) = step (run evs) ev"
  by (simp add: run_def)

lemma intersect_idle:
  assumes "observer_ok s" and "loading s \<or> \<not> hasMore s"
  shows "step s (Intersect b) = s"
  using assms
  by (auto simp: observer_ok_def observer_callback_def deps_of_def rerender_same
      split: option.splits if_splits)

lemma settle_fields [simp]:
  "filters_location (settle i outcome s) = filters_location s"
  "debouncedSearch (settle i outcome s) = debouncedSearch s"
  by (simp_all add: settle_def fetchCompanies_finish_def split: sum.splits)

lemma settle_companies:
  assumes "i < length (inflight s)"
  shows "companies (settle i outcome s) =
           (if req_reset (inflight s ! i)
            then (case outcome of Inl err \<Rightarrow> companies s | Inr data \<Rightarrow> companiesData data)
            else companies s @ page_of outcome)"
  using assms
  by (simp add: settle_def fetchCompanies_finish_def page_of_def split: sum.splits)

lemma filter_effect_fields [simp]:
  "cursor (filter_effect s) = None"
  "hasMore (filter_effect s)"
  "loading (filter_effect s)"
  "companies (filter_effect s) = companies s"
  "filters_location (filter_effect s) = filters_location s"
  "debouncedSearch (filter_effect s) = debouncedSearch s"
  "inflight (filter_effect s) = inflight s @
     [\<lparr>req_reset = True,
       req_params = search_params None (debouncedSearch s) (filters_location s)\<rparr>]"
  by (simp_all add: filter_effect_def fetchCompanies_start_def)

lemma filter_change_step:
  assumes "filter_change s ev"
  shows "\<exists>s1. step s ev = rerender s1 (filter_effect s1) \<and> companies s1 = companies s \<and>
           inflight s1 = inflight s \<and>
           (case ev of
              DebouncedSearch v \<Rightarrow> debouncedSearch s1 = v \<and> filters_location s1 = filters_location s
            | LocationInput v \<Rightarrow> filters_location s1 = v \<and> debouncedSearch s1 = debouncedSearch s
            | _ \<Rightarrow> False)"
  using assms
  by (cases ev) (auto simp: Let_def handleLocationChange_def)

lemma rerender_skip:
  assumes "observer_ok old" and "observer new = observer old"
    and "deps_of new = deps_of old" and "(companies new = []) = (companies old = [])"
  shows "observer (rerender old new) = observer old"
  using assms
  by (auto simp: observer_ok_def rerender_def Let_def lastCompanyRef_def deps_of_def
      split: option.splits if_splits)

lemma filter_change_hasMore:
  assumes "filter_change s ev"
  shows "hasMore (step s ev)"
proof -
  obtain s1 where "step s ev = rerender s1 (filter_effect s1)"
    using filter_change_step [OF assms] by blast
  then show ?thesis by simp
qed

lemma quiet_step:
  assumes "observer_ok s" and "\<not> hasMore s" and "inflight s = []" and "\<not> filter_event ev"
  shows "\<not> hasMore (step s ev) \<and> inflight (step s ev) = []"
proof (cases ev)
  case (SearchInput v)
  then show ?thesis using assms by (simp add: handleSearchChange_def)
next
  case (Intersect b)
  have "step s (Intersect b) = s"
    by (rule intersect_idle [OF assms(1)]) (simp add: assms(2))
  then show ?thesis using Intersect assms by simp
next
  case (Respond i outcome)
  then show ?thesis using assms by (simp add: settle_def)
qed (use assms in simp_all)

lemma quiet_run:
  assumes "observer_ok s" and "\<not> hasMore s" and "inflight s = []"
    and "\<forall>e \<in> set evs. \<not> filter_event e"
  shows "\<not> hasMore (foldl step s evs) \<and> inflight (foldl step s evs) = []"
  using assms
proof (induction evs arbitrary: s)
  case Nil
  then show ?case by simp
next
  case (Cons e evs)
  have "\<not> hasMore (step s e) \<and> inflight (step s e) = []"
    using Cons.prems by (intro quiet_step) simp_all
  moreover have "observer_ok (step s e)"
    using Cons.prems(1) by (rule step_ok)
  ultimately show ?case
    using Cons.IH [of "step s e"] Cons.prems(4) by simp
qed

lemma intersect_requests:
  "inflight (step s (Intersect b)) = inflight s \<or>
   (\<exists>c se lo. inflight (step s (Intersect b)) =
      inflight s @ [\<lparr>req_reset = False, req_params = search_params c se lo\<rparr>])"
  by (auto simp: observer_callback_def fetchCompanies_start_def split: option.splits)

subsection \<open>The query\<close>

lemma trim_empty_iff: "trim s = [] \<longleftrightarrow> (\<forall>c \<in> set s. is_white_space c)"
proof
  assume "trim s = []"
  then have all: "\<forall>c \<in> set (dropWhile is_white_space s). is_white_space c"
    by (simp add: trim_def dropWhile_eq_Nil_conv)
  have "dropWhile is_white_space s = []"
  proof (rule ccontr)
    assume ne: "dropWhile is_white_space s \<noteq> []"
    then have "\<not> is_white_space (hd (dropWhile is_white_space s))"
      by (rule hd_dropWhile)
    moreover have "hd (dropWhile is_white_space s) \<in> set (dropWhile is_white_space s)"
      using ne by (rule hd_in_set)
    ultimately show False using all by blast
  qed
  then show "\<forall>c \<in> set s. is_white_space c"
    by (simp add: dropWhile_eq_Nil_conv)
next
  assume "\<forall>c \<in> set s. is_white_space c"
  then have "dropWhile is_white_space s = []"
    by (simp add: dropWhile_eq_Nil_conv)
  then show "trim s = []"
    by (simp only: trim_def rev.simps dropWhile.simps)
qed

lemma search_params_limit:
  "map_of (search_params c se lo) ''limit'' = Some [0x32, 0x30]"
  by (simp add: search_params_def)

lemma search_params_cursor:
  "map_of (search_params c se lo) ''cursor'' =
     (case c of None \<Rightarrow> None | Some v \<Rightarrow> if v = [] then None else Some (to_usv v))"
  by (cases c) (simp_all add: search_params_def)

lemma search_params_search:
  "map_of (search_params c se lo) ''search'' =
     (if trim se = [] then None else Some (to_usv (trim se)))"
  by (cases c) (simp_all add: search_params_def)

lemma search_params_location:
  "map_of (search_params c se lo) ''location'' =
     (if trim lo = [] then None else Some (to_usv (trim lo)))"
  by (cases c) (simp_all add: search_params_def)

lemma search_params_keys:
  "map fst (search_params c se lo) =
     [''limit''] @ (case c of None \<Rightarrow> [] | Some v \<Rightarrow> if v = [] then [] else [''cursor''])
     @ (if trim se = [] then [] else [''search''])
     @ (if trim lo = [] then [] else [''location''])"
  by (cases c) (simp_all add: search_params_def)

lemma search_params_distinct: "distinct (map fst (search_params c se lo))"
  unfolding search_params_keys by (cases c) simp_all

lemma to_usv_plain:
  assumes "\<forall>c \<in> set s. \<not> is_surrogate c"
  shows "to_usv s = s"
  using assms by (induction s rule: to_usv.induct) (simp_all add: is_surrogate_def)

lemma to_usv_Nil_iff: "to_usv s = [] \<longleftrightarrow> s = []"
  by (induction s rule: to_usv.induct) simp_all

subsection \<open>Scrolls that do not overlap\<close>

lemma served_prefix: "prefix (served srv se lo c n) (served srv se lo c (Suc n))"
proof (induction n arbitrary: c)
  case 0
  show ?case by simp
next
  case (Suc n)
  let ?body = "srv (search_params c se lo)"
  have short: "served srv se lo c (Suc n) =
      companiesData ?body @
      (if resp_hasMore ?body then served srv se lo (nextCursor ?body) n else [])"
    by (simp add: Let_def)
  have long: "served srv se lo c (Suc (Suc n)) =
      companiesData ?body @
      (if resp_hasMore ?body then served srv se lo (nextCursor ?body) (Suc n) else [])"
    by (simp add: Let_def)
  show ?case
    unfolding long short using Suc.IH by (simp del: served.simps)
qed

lemma scroll_once_idle:
  assumes "observer_ok s" and "\<not> hasMore s" and "inflight s = []"
  shows "scroll_once srv s = s"
proof -
  have "step s (Intersect True) = s"
    by (rule intersect_idle [OF assms(1)]) (simp add: assms(2))
  then show ?thesis
    by (simp add: scroll_once_def respond_def assms(3) del: step.simps)
qed

lemma scroll_once_fetch:
  assumes "observer_ok s" and "\<not> loading s" and "inflight s = []" and "companies s \<noteq> []"
    and "hasMore s"
  shows "scroll_once srv s =
           step (step s (Intersect True))
             (Respond 0 (Inr (srv (search_params (cursor s) (debouncedSearch s)
                                     (filters_location s)))))"
    and "step s (Intersect True) =
           rerender s (fetchCompanies_start False (cursor s) (debouncedSearch s)
                         (filters_location s) s)"
proof -
  have ob: "observer s = Some \<lparr>obs_deps = deps_of s, obs_target = True\<rparr>"
    using assms(1,2,4) by (simp add: observer_ok_def)
  show start: "step s (Intersect True) =
           rerender s (fetchCompanies_start False (cursor s) (debouncedSearch s)
                         (filters_location s) s)"
    by (simp add: ob observer_callback_def deps_of_def assms(5))
  have fl: "inflight (step s (Intersect True)) =
              [\<lparr>req_reset = False,
                req_params = search_params (cursor s) (debouncedSearch s) (filters_location s)\<rparr>]"
    unfolding start by (simp add: fetchCompanies_start_def assms(3))
  show "scroll_once srv s =
           step (step s (Intersect True))
             (Respond 0 (Inr (srv (search_params (cursor s) (debouncedSearch s)
                                     (filters_location s)))))"
    by (simp add: scroll_once_def respond_def assms(3) fl del: step.simps)
qed

lemma scroll_once_quiet:
  assumes "observer_ok s" and "\<not> loading s" and "inflight s = []" and "companies s \<noteq> []"
  shows "observer_ok (scroll_once srv s) \<and>
         \<not> loading (scroll_once srv s) \<and>
         inflight (scroll_once srv s) = [] \<and>
         debouncedSearch (scroll_once srv s) = debouncedSearch s \<and>
         filters_location (scroll_once srv s) = filters_location s \<and>
         companies (scroll_once srv s) =
           companies s @
           (if hasMore s
            then companiesData (srv (search_params (cursor s) (debouncedSearch s)
                                       (filters_location s)))
            else []) \<and>
         cursor (scroll_once srv s) =
           (if hasMore s
            then nextCursor (srv (search_params (cursor s) (debouncedSearch s)
                                    (filters_location s)))
            else cursor s) \<and>
         hasMore (scroll_once srv s) =
           (hasMore s \<and>
            resp_hasMore (srv (search_params (cursor s) (debouncedSearch s)
                                 (filters_location s))))"
proof (cases "hasMore s")
  case True
  let ?body = "srv (search_params (cursor s) (debouncedSearch s) (filters_location s))"
  let ?start = "fetchCompanies_start False (cursor s) (debouncedSearch s)
                  (filters_location s) s"
  have eq: "scroll_once srv s = step (step s (Intersect True)) (Respond 0 (Inr ?body))"
    using assms True by (rule scroll_once_fetch(1))
  have st: "step s (Intersect True) = rerender s ?start"
    using assms True by (rule scroll_once_fetch(2))
  have ok: "observer_ok (scroll_once srv s)"
    unfolding eq by (intro step_ok assms(1))
  have eq2: "scroll_once srv s = rerender (rerender s ?start) (settle 0 (Inr ?body) (rerender s ?start))"
    unfolding eq st by simp
  have fl: "inflight ?start =
      [\<lparr>req_reset = False,
        req_params = search_params (cursor s) (debouncedSearch s) (filters_location s)\<rparr>]"
    by (simp add: fetchCompanies_start_def assms(3))
  have st_fields: "companies ?start = companies s" "debouncedSearch ?start = debouncedSearch s"
    "filters_location ?start = filters_location s"
    by (simp_all add: fetchCompanies_start_def)
  have "\<not> loading (scroll_once srv s)"
    and "inflight (scroll_once srv s) = []"
    and "debouncedSearch (scroll_once srv s) = debouncedSearch s"
    and "filters_location (scroll_once srv s) = filters_location s"
    and "companies (scroll_once srv s) = companies s @ companiesData ?body"
    and "cursor (scroll_once srv s) = nextCursor ?body"
    and "hasMore (scroll_once srv s) = resp_hasMore ?body"
    unfolding eq2 by (simp_all add: settle_def fl fetchCompanies_finish_def st_fields)
  with ok True show ?thesis by simp
next
  case False
  have "scroll_once srv s = s"
    using assms(1) False assms(3) by (rule scroll_once_idle)
  with False assms show ?thesis by simp
qed

lemma scrolls_companies:
  assumes "observer_ok s" and "\<not> loading s" and "inflight s = []" and "companies s \<noteq> []"
  shows "companies (scrolls srv n s) =
           companies s @
           (if hasMore s
            then served srv (debouncedSearch s) (filters_location s) (cursor s) n
            else [])"
  using assms
proof (induction n arbitrary: s)
  case 0
  show ?case by simp
next
  case (Suc n)
  let ?body = "srv (search_params (cursor s) (debouncedSearch s) (filters_location s))"
  note q = scroll_once_quiet [OF Suc.prems, of srv]
  have q1: "observer_ok (scroll_once srv s)" and q2: "\<not> loading (scroll_once srv s)"
    and q3: "inflight (scroll_once srv s) = []"
    and q4: "debouncedSearch (scroll_once srv s) = debouncedSearch s"
    and q5: "filters_location (scroll_once srv s) = filters_location s"
    and q6: "companies (scroll_once srv s) =
               companies s @ (if hasMore s then companiesData ?body else [])"
    and q7: "cursor (scroll_once srv s) = (if hasMore s then nextCursor ?body else cursor s)"
    and q8: "hasMore (scroll_once srv s) = (hasMore s \<and> resp_hasMore ?body)"
    using q by blast+
  have ne: "companies (scroll_once srv s) \<noteq> []"
    using Suc.prems(4) by (simp add: q6)
  have ih: "companies (scrolls srv n (scroll_once srv s)) =
              companies (scroll_once srv s) @
              (if hasMore (scroll_once srv s)
               then served srv (debouncedSearch s) (filters_location s)
                      (cursor (scroll_once srv s)) n
               else [])"
    using Suc.IH [OF q1 q2 q3 ne] by (simp only: q4 q5)
  have unfold: "served srv (debouncedSearch s) (filters_location s) (cursor s) (Suc n) =
      companiesData ?body @
      (if resp_hasMore ?body
       then served srv (debouncedSearch s) (filters_location s) (nextCursor ?body) n
       else [])"
    by (simp add: Let_def)
  have "companies (scrolls srv (Suc n) s) = companies (scrolls srv n (scroll_once srv s))"
    by simp
  also have "\<dots> = companies s @
           (if hasMore s
            then served srv (debouncedSearch s) (filters_location s) (cursor s) (Suc n)
            else [])"
    unfolding ih unfold by (simp add: q6 q7 q8 del: served.simps)
  finally show ?case .
qed

section \<open>The claims\<close>

subsection \<open>Changing a filter\<close>

text \<open>
  Claim C1, as amended. When the debounced search or the location takes a new value, the
  effect clears the cursor, sets \<open>hasMore\<close>, and sends a reset request with the new
  filters; the list on screen is still the old one. While that state is loading, an
  intersection event requests nothing. When the answer to the reset request is the next
  thing to arrive and is a success, the list, the cursor and \<open>hasMore\<close> are those of its
  body.
\<close>

theorem filter_change_resets:
  assumes "filter_change (run evs) ev"
  shows "let s = run evs; s' = step s ev;
             answered = step s' (Respond (length (inflight s)) (Inr d))
         in cursor s' = None \<and> hasMore s' \<and> loading s' \<and>
            companies s' = companies s \<and>
            (case ev of
               DebouncedSearch v \<Rightarrow>
                 debouncedSearch s' = v \<and> filters_location s' = filters_location s
             | LocationInput v \<Rightarrow>
                 filters_location s' = v \<and> debouncedSearch s' = debouncedSearch s
             | _ \<Rightarrow> False) \<and>
            inflight s' = inflight s @
              [\<lparr>req_reset = True,
                req_params = search_params None (debouncedSearch s') (filters_location s')\<rparr>] \<and>
            step s' (Intersect b) = s' \<and>
            companies answered = companiesData d \<and>
            cursor answered = nextCursor d \<and>
            hasMore answered = resp_hasMore d"
proof -
  obtain s1 where s1: "step (run evs) ev = rerender s1 (filter_effect s1)"
    and c1: "companies s1 = companies (run evs)"
    and i1: "inflight s1 = inflight (run evs)"
    and f1: "(case ev of
              DebouncedSearch v \<Rightarrow>
                debouncedSearch s1 = v \<and> filters_location s1 = filters_location (run evs)
            | LocationInput v \<Rightarrow>
                filters_location s1 = v \<and> debouncedSearch s1 = debouncedSearch (run evs)
            | _ \<Rightarrow> False)"
    using filter_change_step [OF assms] by blast
  have ok: "observer_ok (step (run evs) ev)"
    by (simp add: step_ok run_ok)
  have idle: "step (step (run evs) ev) (Intersect b) = step (run evs) ev"
    by (rule intersect_idle [OF ok]) (simp add: s1)
  have fields: "(case ev of
               DebouncedSearch v \<Rightarrow>
                 debouncedSearch (step (run evs) ev) = v \<and>
                 filters_location (step (run evs) ev) = filters_location (run evs)
             | LocationInput v \<Rightarrow>
                 filters_location (step (run evs) ev) = v \<and>
                 debouncedSearch (step (run evs) ev) = debouncedSearch (run evs)
             | _ \<Rightarrow> False)"
    unfolding s1 using f1 by (cases ev) simp_all
  have answered:
    "companies (step (step (run evs) ev) (Respond (length (inflight (run evs))) (Inr d)))
       = companiesData d"
    "cursor (step (step (run evs) ev) (Respond (length (inflight (run evs))) (Inr d)))
       = nextCursor d"
    "hasMore (step (step (run evs) ev) (Respond (length (inflight (run evs))) (Inr d)))
       = resp_hasMore d"
    by (simp_all add: s1 i1 settle_def fetchCompanies_finish_def)
  show ?thesis
    unfolding Let_def using idle fields answered by (simp add: s1 c1 i1)
qed

theorem filter_change_resets_witness:
  "cursor (step (run [Respond 0 (Inr first_page), Respond 0 (Inr first_page)])
             (LocationInput [0x78])) = None \<and>
   companies (step (step (run [Respond 0 (Inr first_page), Respond 0 (Inr first_page)])
                      (LocationInput [0x78])) (Respond 0 (Inr final_page))) = [3]"
proof -
  have h: "filter_change (run [Respond 0 (Inr first_page), Respond 0 (Inr first_page)])
             (LocationInput [0x78])"
    by code_simp
  have l: "length (inflight (run [Respond 0 (Inr first_page), Respond 0 (Inr first_page)])) = 0"
    by code_simp
  have d: "companiesData final_page = [3]"
    by (simp add: final_page_def)
  show ?thesis
    using filter_change_resets [OF h, of final_page True] by (simp add: Let_def l d)
qed

text \<open>
  Claim C1 as stated fails: the list is replaced only by a successful answer. Here the
  location changes to \<^verbatim>\<open>"x"\<close> while the companies 1 and 2 are shown, the reset request
  fails, and the last card intersects: a further page (\<open>req_reset = False\<close>) is requested
  under the new location while the list is still the one of the old filters, and its
  answer (company 3) is appended to that list.
\<close>

theorem filter_change_list_kept_counterexample:
  "companies (run [Respond 0 (Inr first_page), Respond 0 (Inr first_page)]) = [1, 2] \<and>
   companies (run [Respond 0 (Inr first_page), Respond 0 (Inr first_page),
                   LocationInput [0x78], Respond 0 (Inl NetworkError), Intersect True]) = [1, 2] \<and>
   inflight (run [Respond 0 (Inr first_page), Respond 0 (Inr first_page),
                  LocationInput [0x78], Respond 0 (Inl NetworkError), Intersect True]) =
     [\<lparr>req_reset = False,
       req_params = [(''limit'', [0x32, 0x30]), (''location'', [0x78])]\<rparr>] \<and>
   companies (run [Respond 0 (Inr first_page), Respond 0 (Inr first_page),
                   LocationInput [0x78], Respond 0 (Inl NetworkError), Intersect True,
                   Respond 0 (Inr final_page)]) = [1, 2, 3]"
  by code_simp

subsection \<open>The answer to a search\<close>

text \<open>
  Claim C2. When a call of \<open>fetchCompanies\<close> succeeds, the list becomes the
  \<open>companiesData\<close> of the body if \<open>resetList\<close> is true, and the list of that moment
  followed by \<open>companiesData\<close> otherwise; in both cases the cursor becomes the body's
  \<open>nextCursor\<close> and \<open>hasMore\<close> the body's \<open>hasMore\<close>. This holds of the continuation
  in whatever state the answer finds (\<open>fetchCompanies_finish\<close>) and of a call answered
  at once (\<open>fetchCompanies\<close>).
\<close>

theorem fetch_success_updates:
  "companies (fetchCompanies_finish True (Inr d) s) = companiesData d \<and>
   companies (fetchCompanies_finish False (Inr d) s) = companies s @ companiesData d \<and>
   cursor (fetchCompanies_finish r (Inr d) s) = nextCursor d \<and>
   hasMore (fetchCompanies_finish r (Inr d) s) = resp_hasMore d \<and>
   companies (fetchCompanies r c se lo (Inr d) s) =
     (if r then companiesData d else companies s @ companiesData d) \<and>
   cursor (fetchCompanies r c se lo (Inr d) s) = nextCursor d \<and>
   hasMore (fetchCompanies r c se lo (Inr d) s) = resp_hasMore d"
  by (simp add: fetchCompanies_def settle_def fetchCompanies_start_def fetchCompanies_finish_def)

subsection \<open>Scrolling\<close>

text \<open>
  Claim C3. In every state the component reaches from mounting, if \<open>hasMore\<close> is false
  then an intersection event on the last card changes nothing: no request is sent and
  the loading flag is not set.
\<close>

theorem no_fetch_when_exhausted:
  assumes "\<not> hasMore (run evs)"
  shows "step (run evs) (Intersect isIntersecting) = run evs"
  by (rule intersect_idle [OF run_ok]) (simp add: assms)

text \<open>
  The hypothesis of C3 is met after both mount requests were answered with a last page;
  the last card then intersects and the state stays as it is.
\<close>

theorem no_fetch_when_exhausted_witness:
  "\<not> hasMore (run [Respond 0 (Inr final_page), Respond 0 (Inr final_page)]) \<and>
   step (run [Respond 0 (Inr final_page), Respond 0 (Inr final_page)]) (Intersect True) =
     run [Respond 0 (Inr final_page), Respond 0 (Inr final_page)]"
proof -
  have h: "\<not> hasMore (run [Respond 0 (Inr final_page), Respond 0 (Inr final_page)])"
    by code_simp
  show ?thesis
    using h no_fetch_when_exhausted [OF h, of True] by simp
qed

text \<open>
  The answer to a request sent by the intersection callback (a request with
  \<open>resetList\<close> false) appends to the list it finds; a failed answer delivers nothing.
  An intersection event sends at most one request and never a reset request.
\<close>

lemma scroll_answer_appends:
  assumes "i < length (inflight s)" and "\<not> req_reset (inflight s ! i)"
  shows "companies (step s (Respond i outcome)) = companies s @ page_of outcome"
  using assms by (simp add: settle_companies)

text \<open>
  Claim C4, as amended. The answer to a scroll-triggered request always appends to the
  list it finds, which stays a prefix. For the rest the scrolls must not overlap with
  another fetch: the filters are those of a reachable state that is not loading, has
  nothing in flight and shows a card, and each scroll is answered by the server before
  the next event. Then the list after \<open>n\<close> scrolls is the list before, followed by the
  successive pages of the server from the current cursor on, and it is a prefix of the
  list after one scroll more. If the state shows the first page of the server, as after
  a reset fetch, the list is the sequence of the server's pages itself: nothing the
  server serves is dropped or shown twice, and the list has no duplicate when the pages
  of the server have none.
\<close>

theorem serial_scrolls_append:
  fixes srv :: "'c server"
  assumes "\<not> loading (run evs)" and "inflight (run evs) = []" and "companies (run evs) \<noteq> []"
  shows "let s = run evs;
             pages = served srv (debouncedSearch s) (filters_location s);
             first = srv (search_params None (debouncedSearch s) (filters_location s))
         in (\<forall>n. companies (scrolls srv n s) =
                   companies s @ (if hasMore s then pages (cursor s) n else []) \<and>
                 prefix (companies (scrolls srv n s)) (companies (scrolls srv (Suc n) s))) \<and>
            (companies s = companiesData first \<and> cursor s = nextCursor first \<and>
             hasMore s = resp_hasMore first \<longrightarrow>
               (\<forall>n. companies (scrolls srv n s) = pages None (Suc n) \<and>
                    (distinct (pages None (Suc n)) \<longrightarrow>
                       distinct (companies (scrolls srv n s))))) \<and>
            (\<forall>(t :: 'c app_state) i outcome.
               i < length (inflight t) \<and> \<not> req_reset (inflight t ! i) \<longrightarrow>
               companies (step t (Respond i outcome)) = companies t @ page_of outcome \<and>
               prefix (companies t) (companies (step t (Respond i outcome))))"
proof -
  let ?s = "run evs"
  let ?pages = "served srv (debouncedSearch ?s) (filters_location ?s)"
  let ?first = "srv (search_params None (debouncedSearch ?s) (filters_location ?s))"
  have eq: "companies (scrolls srv n ?s) =
              companies ?s @ (if hasMore ?s then ?pages (cursor ?s) n else [])" for n
    using run_ok assms by (rule scrolls_companies)
  have pre: "prefix (companies (scrolls srv n ?s)) (companies (scrolls srv (Suc n) ?s))" for n
    unfolding eq using served_prefix [of srv "debouncedSearch ?s" "filters_location ?s" "cursor ?s" n]
    by (simp del: served.simps)
  have chain: "companies (scrolls srv n ?s) = ?pages None (Suc n)"
    if "companies ?s = companiesData ?first" and "cursor ?s = nextCursor ?first"
      and "hasMore ?s = resp_hasMore ?first" for n
    unfolding eq using that by (simp add: Let_def)
  have one: "companies (step t (Respond i outcome)) = companies t @ page_of outcome \<and>
             prefix (companies t) (companies (step t (Respond i outcome)))"
    if "i < length (inflight t)" and "\<not> req_reset (inflight t ! i)"
    for t :: "'c app_state" and i outcome
    using scroll_answer_appends [OF that, of outcome] by (simp del: step.simps)
  have part1: "\<forall>n. companies (scrolls srv n ?s) =
                   companies ?s @ (if hasMore ?s then ?pages (cursor ?s) n else []) \<and>
                 prefix (companies (scrolls srv n ?s)) (companies (scrolls srv (Suc n) ?s))"
    using eq pre by blast
  have part2: "companies ?s = companiesData ?first \<and> cursor ?s = nextCursor ?first \<and>
             hasMore ?s = resp_hasMore ?first \<longrightarrow>
               (\<forall>n. companies (scrolls srv n ?s) = ?pages None (Suc n) \<and>
                    (distinct (?pages None (Suc n)) \<longrightarrow>
                       distinct (companies (scrolls srv n ?s))))"
  proof (intro impI allI conjI)
    fix n
    assume shown: "companies ?s = companiesData ?first \<and> cursor ?s = nextCursor ?first \<and>
             hasMore ?s = resp_hasMore ?first"
    then show c: "companies (scrolls srv n ?s) = ?pages None (Suc n)"
      by (intro chain) blast+
    assume "distinct (?pages None (Suc n))"
    then show "distinct (companies (scrolls srv n ?s))"
      by (simp only: c)
  qed
  have part3: "\<forall>(t :: 'c app_state) i outcome.
               i < length (inflight t) \<and> \<not> req_reset (inflight t ! i) \<longrightarrow>
               companies (step t (Respond i outcome)) = companies t @ page_of outcome \<and>
               prefix (companies t) (companies (step t (Respond i outcome)))"
    using one by blast
  show ?thesis
    unfolding Let_def using part1 part2 part3 by blast
qed

text \<open>
  Both mount requests are answered by the example server; the state shows its first page.
  After two scrolls the list is 1, 2, 3, the pages of the server.
\<close>

theorem serial_scrolls_append_witness:
  "companies (run [Respond 0 (Inr first_page), Respond 0 (Inr first_page)]) = [1, 2] \<and>
   companies (scrolls example_server 2
                (run [Respond 0 (Inr first_page), Respond 0 (Inr first_page)])) = [1, 2, 3] \<and>
   distinct (companies (scrolls example_server 2
                (run [Respond 0 (Inr first_page), Respond 0 (Inr first_page)])))"
proof -
  let ?s = "run [Respond 0 (Inr first_page), Respond 0 (Inr first_page)]"
  have h1: "\<not> loading ?s" by code_simp
  have h2: "inflight ?s = []" by code_simp
  have h3: "companies ?s \<noteq> []" by code_simp
  have c: "companies ?s = [1, 2]" by code_simp
  have f: "debouncedSearch ?s = []" "filters_location ?s = []" by code_simp+
  have shown: "companies ?s = companiesData (example_server (search_params None [] []))"
    "cursor ?s = nextCursor (example_server (search_params None [] []))"
    "hasMore ?s = resp_hasMore (example_server (search_params None [] []))"
    by code_simp+
  have pages: "served example_server [] [] None (Suc 2) = [1, 2, 3]"
    by code_simp
  have imp: "companies ?s = companiesData (example_server (search_params None [] [])) \<and>
          cursor ?s = nextCursor (example_server (search_params None [] [])) \<and>
          hasMore ?s = resp_hasMore (example_server (search_params None [] [])) \<longrightarrow>
          (\<forall>n. companies (scrolls example_server n ?s) =
                 served example_server [] [] None (Suc n) \<and>
               (distinct (served example_server [] [] None (Suc n)) \<longrightarrow>
                  distinct (companies (scrolls example_server n ?s))))"
    using serial_scrolls_append [OF h1 h2 h3, of example_server]
    unfolding Let_def f by blast
  have "\<forall>n. companies (scrolls example_server n ?s) =
                 served example_server [] [] None (Suc n) \<and>
               (distinct (served example_server [] [] None (Suc n)) \<longrightarrow>
                  distinct (companies (scrolls example_server n ?s)))"
    by (rule mp [OF imp]) (intro conjI shown)
  then have "companies (scrolls example_server 2 ?s) = served example_server [] [] None (Suc 2) \<and>
        (distinct (served example_server [] [] None (Suc 2)) \<longrightarrow>
           distinct (companies (scrolls example_server 2 ?s)))"
    by (rule spec)
  then show ?thesis
    using c by (simp only: pages) simp
qed

text \<open>
  Claim C4 as stated fails when fetches overlap, as the two reset fetches of mounting do.
  The example server serves the pages 1, 2 and 3 without repetition. The first mount
  request is answered, the last card intersects (the page after the cursor is
  requested), the second mount request is answered and clears the loading flag, the last
  card intersects again (the same page is requested again), and both requests are
  answered: company 3 is shown twice.
\<close>

theorem overlapping_scrolls_duplicate_counterexample:
  "served example_server [] [] None 3 = [1, 2, 3] \<and>
   inflight (step (respond example_server 0
                (step (respond example_server 0 mount) (Intersect True))) (Intersect True)) =
     [\<lparr>req_reset = False, req_params = [(''limit'', [0x32, 0x30]), (''cursor'', [0x63])]\<rparr>,
      \<lparr>req_reset = False, req_params = [(''limit'', [0x32, 0x30]), (''cursor'', [0x63])]\<rparr>] \<and>
   companies (respond example_server 0
     (step (respond example_server 0
        (step (respond example_server 0 mount) (Intersect True))) (Intersect True))) =
     [1, 2, 3] \<and>
   companies (respond example_server 0 (respond example_server 0
     (step (respond example_server 0
        (step (respond example_server 0 mount) (Intersect True))) (Intersect True)))) =
     [1, 2, 3, 3]"
  by code_simp

subsection \<open>Bookmarks\<close>

text \<open>
  Claim C5. A call of \<open>handleBookmarkToggle\<close> without a user leaves the set of
  bookmarked ids as it is and opens the login dialog.
\<close>

theorem toggle_logged_out:
  "bookmarkedIds (handleBookmarkToggle None ident st s) = bookmarkedIds s \<and>
   showLoginDialog (handleBookmarkToggle None ident st s)"
  by (simp add: handleBookmarkToggle_def)

text \<open>
  Claim C6. A call of \<open>handleBookmarkToggle\<close> with a user makes the membership of the
  id equal to the requested state and leaves the membership of every other id unchanged.
\<close>

theorem toggle_logged_in:
  "(ident \<in> bookmarkedIds (handleBookmarkToggle (Some u) ident st s)) = st \<and>
   (\<forall>other. other \<noteq> ident \<longrightarrow>
      (other \<in> bookmarkedIds (handleBookmarkToggle (Some u) ident st s)) =
      (other \<in> bookmarkedIds s))"
  by (simp add: handleBookmarkToggle_def)

text \<open>
  Adding \<^verbatim>\<open>"a"\<close> to the set that holds \<^verbatim>\<open>"b"\<close>: \<^verbatim>\<open>"a"\<close> is in, \<^verbatim>\<open>"b"\<close> stays in and
  \<^verbatim>\<open>"c"\<close> stays out.
\<close>

theorem toggle_logged_in_witness:
  "[0x61] \<in> bookmarkedIds (handleBookmarkToggle (Some ()) [0x61] True
                (initial_state\<lparr>bookmarkedIds := {[0x62]}\<rparr> :: nat app_state)) \<and>
   [0x62] \<in> bookmarkedIds (handleBookmarkToggle (Some ()) [0x61] True
                (initial_state\<lparr>bookmarkedIds := {[0x62]}\<rparr> :: nat app_state)) \<and>
   [0x63] \<notin> bookmarkedIds (handleBookmarkToggle (Some ()) [0x61] True
                (initial_state\<lparr>bookmarkedIds := {[0x62]}\<rparr> :: nat app_state))"
  using toggle_logged_in [of "[0x61]" "()" True
      "initial_state\<lparr>bookmarkedIds := {[0x62]}\<rparr> :: nat app_state"]
  by (simp add: initial_state_def)

subsection \<open>Failures and the loading flag\<close>

text \<open>
  The \<^verbatim>\<open>catch\<close> branches: a call of \<open>fetchCompanies\<close> whose request is rejected or whose
  body does not parse returns a state in which only the loading flag may differ: the
  list, the cursor and \<open>hasMore\<close> are those before the call. The same holds of the
  continuation in whatever state the failure finds. A rejected \<open>fetchLocations\<close> and a
  rejected \<open>fetchBookmarks\<close> leave the whole state as it is.
\<close>

lemma fetch_failure_keeps_state:
  "fetchCompanies r c se lo (Inl e) s = s\<lparr>loading := False\<rparr> \<and>
   companies (fetchCompanies r c se lo (Inl e) s) = companies s \<and>
   cursor (fetchCompanies r c se lo (Inl e) s) = cursor s \<and>
   hasMore (fetchCompanies r c se lo (Inl e) s) = hasMore s \<and>
   fetchCompanies_finish r (Inl e) s' = s'\<lparr>loading := False\<rparr> \<and>
   fetchLocations (Inl e) s = s \<and>
   fetchBookmarks u (Inl e) s = s"
  by (simp add: fetchCompanies_def settle_def fetchCompanies_start_def fetchCompanies_finish_def
      fetchLocations_def fetchBookmarks_def split: option.splits)


text \<open>
  Claim C8. A call of \<open>fetchCompanies\<close> sets the loading flag when it starts and clears
  it when it ends, whether the answer is a success or a failure; so the flag is clear
  after a call answered at once, and after the answer to any request in flight.
\<close>

theorem loading_cycle:
  "loading (fetchCompanies_start r c se lo s) \<and>
   \<not> loading (fetchCompanies_finish r outcome s') \<and>
   \<not> loading (fetchCompanies r c se lo outcome s) \<and>
   (i < length (inflight s') \<longrightarrow> \<not> loading (step s' (Respond i outcome)))"
  by (simp add: fetchCompanies_def settle_def fetchCompanies_start_def fetchCompanies_finish_def
      split: sum.splits)

text \<open>
  After mounting the state is loading with two requests in flight; a success for the
  second and a failure for the first each clear the flag.
\<close>

theorem loading_cycle_witness:
  "loading (run [] :: nat app_state) \<and>
   \<not> loading (step (run []) (Respond 1 (Inr first_page))) \<and>
   \<not> loading (step (run [] :: nat app_state) (Respond 0 (Inl JsonError)))"
proof -
  have l: "(1::nat) < length (inflight (run [] :: nat app_state))"
          "(0::nat) < length (inflight (run [] :: nat app_state))"
    by code_simp+
  have "loading (run [] :: nat app_state)"
    by code_simp
  then show ?thesis
    using loading_cycle [where s' = "run [] :: nat app_state" and i = 1
        and outcome = "Inr first_page"]
      loading_cycle [where s' = "run [] :: nat app_state" and i = 0
        and outcome = "Inl JsonError"] l
    by simp
qed

subsection \<open>The end of the list\<close>

text \<open>
  Claim C9, as amended. Once \<open>hasMore\<close> is false and no request is in flight, it stays
  false, and no request is sent, through every sequence of events that are not filter
  events; an event that changes a filter sets it again.
\<close>

theorem hasMore_stays_false:
  assumes "\<not> hasMore (run evs)" and "inflight (run evs) = []"
    and "\<forall>e \<in> set evs'. \<not> filter_event e"
  shows "\<not> hasMore (run (evs @ evs')) \<and> inflight (run (evs @ evs')) = [] \<and>
         (\<forall>ev. filter_change (run (evs @ evs')) ev \<longrightarrow> hasMore (run (evs @ evs' @ [ev])))"
proof -
  have "\<not> hasMore (run (evs @ evs')) \<and> inflight (run (evs @ evs')) = []"
    unfolding run_append using run_ok assms by (rule quiet_run)
  moreover have "hasMore (run (evs @ evs' @ [ev]))" if "filter_change (run (evs @ evs')) ev" for ev
    using filter_change_hasMore [OF that] by (simp add: run_snoc [symmetric])
  ultimately show ?thesis by blast
qed

text \<open>
  Both mount requests are answered with a last page. An intersection, an input in the
  search box and an answer that belongs to no request leave \<open>hasMore\<close> false; the change
  of the location to \<^verbatim>\<open>"x"\<close> sets it.
\<close>

theorem hasMore_stays_false_witness:
  "\<not> hasMore (run [Respond 0 (Inr final_page), Respond 0 (Inr final_page)]) \<and>
   \<not> hasMore (run ([Respond 0 (Inr final_page), Respond 0 (Inr final_page)] @
                   [Intersect True, SearchInput [0x61], Respond 0 (Inl NetworkError)])) \<and>
   hasMore (run ([Respond 0 (Inr final_page), Respond 0 (Inr final_page)] @
                 [Intersect True, SearchInput [0x61], Respond 0 (Inl NetworkError)] @
                 [LocationInput [0x78]]))"
proof -
  have h1: "\<not> hasMore (run [Respond 0 (Inr final_page), Respond 0 (Inr final_page)])"
    by code_simp
  have h2: "inflight (run [Respond 0 (Inr final_page), Respond 0 (Inr final_page)]) = []"
    by code_simp
  have h3: "\<forall>e \<in> set [Intersect True, SearchInput [0x61], Respond 0 (Inl NetworkError) :: nat event].
              \<not> filter_event e"
    by simp
  have h4: "filter_change
              (run ([Respond 0 (Inr final_page), Respond 0 (Inr final_page)] @
                    [Intersect True, SearchInput [0x61], Respond 0 (Inl NetworkError)]))
              (LocationInput [0x78])"
    by code_simp
  show ?thesis
    using h1 h4 hasMore_stays_false [OF h1 h2 h3] by blast
qed

text \<open>
  Claim C9 as stated fails, because mounting sends two reset requests and an answer sets
  the loading flag to false whatever else is in flight. The first mount request is
  answered with the first page; the last card intersects and the page after the cursor
  \<^verbatim>\<open>"c"\<close> is requested and answered: it is the last page and \<open>hasMore\<close> is false. Then the
  second mount request is answered, again with the first page, and \<open>hasMore\<close> is true
  although no filter changed.
\<close>

theorem stale_answer_restarts_counterexample:
  "inflight (run [Respond 0 (Inr first_page), Intersect True]) =
     [\<lparr>req_reset = True, req_params = [(''limit'', [0x32, 0x30])]\<rparr>,
      \<lparr>req_reset = False, req_params = [(''limit'', [0x32, 0x30]), (''cursor'', [0x63])]\<rparr>] \<and>
   \<not> hasMore (run [Respond 0 (Inr first_page), Intersect True, Respond 1 (Inr final_page)]) \<and>
   hasMore (run [Respond 0 (Inr first_page), Intersect True, Respond 1 (Inr final_page),
                 Respond 0 (Inr first_page)])"
  by code_simp

subsection \<open>The query sent\<close>

text \<open>
  Claim C10, as amended. The request a call of \<open>fetchCompanies\<close> sends has the entry
  \<^verbatim>\<open>limit=20\<close>; a \<^verbatim>\<open>cursor\<close> entry exactly when the cursor argument is neither \<^verbatim>\<open>null\<close>
  nor the empty string; a \<^verbatim>\<open>search\<close> (a \<^verbatim>\<open>location\<close>) entry exactly when the trimmed
  argument is not empty; and no key twice. The value sent is the cursor, or the trimmed
  argument, with every unpaired surrogate replaced by U+FFFD; a value without
  surrogates is sent as it is.
\<close>

theorem search_query_entries:
  "map_of (search_params c se lo) ''limit'' = Some [0x32, 0x30] \<and>
   map_of (search_params c se lo) ''cursor'' =
     (case c of None \<Rightarrow> None | Some v \<Rightarrow> if v = [] then None else Some (to_usv v)) \<and>
   map_of (search_params c se lo) ''search'' =
     (if trim se = [] then None else Some (to_usv (trim se))) \<and>
   map_of (search_params c se lo) ''location'' =
     (if trim lo = [] then None else Some (to_usv (trim lo))) \<and>
   distinct (map fst (search_params c se lo)) \<and>
   inflight (fetchCompanies_start r c se lo s) =
     inflight s @ [\<lparr>req_reset = r, req_params = search_params c se lo\<rparr>] \<and>
   (\<forall>v. (\<forall>u \<in> set v. \<not> is_surrogate u) \<longrightarrow> to_usv v = v)"
  using search_params_limit [of c se lo] search_params_cursor [of c se lo]
    search_params_search [of c se lo] search_params_location [of c se lo]
    search_params_distinct [of c se lo] to_usv_plain
  by (simp add: fetchCompanies_start_def)

text \<open>
  The cursor \<^verbatim>\<open>"c"\<close>, the search \<^verbatim>\<open>" a "\<close> and an empty location: the query has the cursor,
  the search \<^verbatim>\<open>"a"\<close> and no location.
\<close>

theorem search_query_entries_witness:
  "map_of (search_params (Some [0x63]) [0x20, 0x61, 0x20] []) ''cursor'' = Some [0x63] \<and>
   map_of (search_params (Some [0x63]) [0x20, 0x61, 0x20] []) ''search'' = Some [0x61] \<and>
   map_of (search_params (Some [0x63]) [0x20, 0x61, 0x20] []) ''location'' = None"
proof -
  have t: "trim [0x20, 0x61, 0x20] = [0x61]" "trim [] = []"
    by (simp_all add: trim_def is_white_space_def)
  have p: "\<forall>u \<in> set [0x61 :: 16 word]. \<not> is_surrogate u"
          "\<forall>u \<in> set [0x63 :: 16 word]. \<not> is_surrogate u"
    by (simp_all add: is_surrogate_def is_leading_def is_trailing_def)
  note q = search_query_entries [of "Some [0x63]" "[0x20, 0x61, 0x20]" "[]" True
      "initial_state :: nat app_state"]
  have u: "to_usv [0x61] = [0x61]" "to_usv [0x63] = [0x63]"
    using q p by blast+
  show ?thesis
    using q unfolding t by (simp del: to_usv.simps add: u)
qed

text \<open>
  Claim C10 as stated fails for the empty cursor: it is not \<^verbatim>\<open>null\<close>, but it is falsy, so
  the query has no \<^verbatim>\<open>cursor\<close> entry. It also fails for a search that ends in an unpaired
  surrogate: trimming leaves it as it is, and the value sent ends in U+FFFD.
\<close>

theorem empty_cursor_not_sent_counterexample:
  "(Some [] :: js_string option) \<noteq> None \<and>
   ''cursor'' \<notin> fst ` set (search_params (Some []) [] []) \<and>
   trim [0x61, 0xD800] = [0x61, 0xD800] \<and>
   map_of (search_params None [0x61, 0xD800] []) ''search'' = Some [0x61, 0xFFFD]"
  by (simp add: search_params_def trim_def is_white_space_def is_surrogate_def
      is_leading_def is_trailing_def)

end
